theory Spec2Isabelle
  imports Main "HOL-Library.Sublist"
begin

section \<open>Deferred entry-point resolution (torchx/util/entrypoints.py)\<close>

text \<open>
  The module has three functions: \<^verbatim>\<open>load\<close> (resolve one name of a group, eagerly),
  \<^verbatim>\<open>_defer_load_ep\<close> (wrap an entry point into a closure that loads on call) and
  \<^verbatim>\<open>load_group\<close> (resolve a whole group into a dictionary of such closures).
  They consume two collaborators of \<^verbatim>\<open>importlib_metadata\<close>: the enumeration
  \<^verbatim>\<open>entry_points()\<close> and the loader \<^verbatim>\<open>EntryPoint.load()\<close>.
\<close>

subsection \<open>Python string operations used by the module\<close>

text \<open>\<^verbatim>\<open>s.startswith(pre)\<close> and \<^verbatim>\<open>s.endswith(suf)\<close>.\<close>

definition startswith :: "'a list \<Rightarrow> 'a list \<Rightarrow> bool" where
  "startswith s pre \<longleftrightarrow> take (length pre) s = pre"

definition endswith :: "'a list \<Rightarrow> 'a list \<Rightarrow> bool" where
  "endswith s suf \<longleftrightarrow> length suf \<le> length s \<and> drop (length s - length suf) s = suf"

text \<open>
  \<^verbatim>\<open>s.replace(old, new)\<close>: every non-overlapping occurrence of \<^verbatim>\<open>old\<close>, found
  scanning from the left, is replaced by \<^verbatim>\<open>new\<close>. For the empty \<^verbatim>\<open>old\<close> Python
  puts \<^verbatim>\<open>new\<close> before every character and at the end.
\<close>

function replace :: "'a list \<Rightarrow> 'a list \<Rightarrow> 'a list \<Rightarrow> 'a list" where
  "replace s old new =
     (if old = [] then new @ concat (map (\<lambda>c. c # new) s)
      else if s = [] then []
      else if startswith s old then new @ replace (drop (length old) s) old new
      else hd s # replace (tl s) old new)"
  by pat_completeness auto
termination
  by (relation "measure (\<lambda>(s, old, new). length s)") auto

declare replace.simps [simp del]

subsection \<open>Data model\<close>

text \<open>
  \<^verbatim>\<open>importlib_metadata.EntryPoint\<close>: the name, the group, and the target reference
  \<^verbatim>\<open>module[:attr]\<close> in its parsed form; \<^verbatim>\<open>ep.attr\<close> is \<^verbatim>\<open>None\<close> exactly when the
  reference denotes a module.
\<close>

record EntryPoint =
  ep_name :: string
  ep_group :: string
  ep_module :: string
  ep_attr :: "string option"

text \<open>
  Exceptions. \<^verbatim>\<open>KeyError\<close> is what \<^verbatim>\<open>EntryPoints.__getitem__\<close> raises, with the
  looked-up name as its only argument; \<^verbatim>\<open>Raised\<close> stands for whatever the loader or
  an invoked target raises, which the module lets through.
\<close>

datatype error = KeyError string | Raised string

text \<open>\<^verbatim>\<open>e.args\<close>, the strings an exception carries.\<close>

fun error_args :: "error \<Rightarrow> string list" where
  "error_args (KeyError k) = [k]"
| "error_args (Raised m) = [m]"

text \<open>
  A Python object as the module sees it: either some object \<open>Obj v\<close> it never looks
  into (a loaded module, a function, a value supplied by the caller), or the closure
  \<^verbatim>\<open>run\<close> made by \<^verbatim>\<open>_defer_load_ep\<close>, which captures the entry point and nothing else.
\<close>

datatype 'v object = Obj 'v | Run EntryPoint

text \<open>
  A \<^verbatim>\<open>dict\<close> with string keys, in insertion order. \<^verbatim>\<open>d[k] = v\<close> overwrites the value of
  an existing key in place and appends a new key; \<^verbatim>\<open>d.update(other)\<close> does so for each
  item of \<^verbatim>\<open>other\<close>.
\<close>

type_synonym 'v dict = "(string \<times> 'v object) list"

primrec setitem :: "string \<Rightarrow> 'v object \<Rightarrow> 'v dict \<Rightarrow> 'v dict" where
  "setitem k v [] = [(k, v)]"
| "setitem k v (p # ps) = (if fst p = k then (k, v) # ps else p # setitem k v ps)"

primrec dict_update :: "'v dict \<Rightarrow> 'v dict \<Rightarrow> 'v dict" where
  "dict_update d [] = d"
| "dict_update d (p # ps) = dict_update (setitem (fst p) (snd p) d) ps"

text \<open>
  The world the module runs in: the metadata store that \<^verbatim>\<open>entry_points()\<close> enumerates,
  and the log of the calls of \<^verbatim>\<open>ep.load()\<close> the module has made, in order.
\<close>

record world =
  store :: "EntryPoint list"
  loads :: "EntryPoint list"

text \<open>
  The collaborators: what \<^verbatim>\<open>ep.load()\<close> gives for an entry point, and what calling a
  loaded object with positional and keyword arguments gives.
\<close>

type_synonym 'v loader = "EntryPoint \<Rightarrow> error + 'v"
type_synonym 'v caller = "'v \<Rightarrow> 'v list \<Rightarrow> (string \<times> 'v) list \<Rightarrow> error + 'v"

definition entry_points :: "world \<Rightarrow> EntryPoint list \<times> world" where
  "entry_points w = (store w, w)"

definition ep_load :: "'v loader \<Rightarrow> EntryPoint \<Rightarrow> world \<Rightarrow> (error + 'v) \<times> world" where
  "ep_load ld ep w = (ld ep, w\<lparr>loads := loads w @ [ep]\<rparr>)"

text \<open>\<^verbatim>\<open>EntryPoints.select(group=...)\<close>, \<^verbatim>\<open>EntryPoints.names\<close> and \<^verbatim>\<open>EntryPoints.__getitem__\<close>.\<close>

definition select_group :: "EntryPoint list \<Rightarrow> string \<Rightarrow> EntryPoint list" where
  "select_group eps g = filter (\<lambda>ep. ep_group ep = g) eps"

definition names :: "EntryPoint list \<Rightarrow> string set" where
  "names eps = set (map ep_name eps)"

definition getitem :: "EntryPoint list \<Rightarrow> string \<Rightarrow> error + EntryPoint" where
  "getitem eps n =
     (case filter (\<lambda>ep. ep_name ep = n) eps of
        [] \<Rightarrow> Inl (KeyError n)
      | ep # _ \<Rightarrow> Inr ep)"

subsection \<open>\<^verbatim>\<open>load\<close>\<close>

definition load :: "'v loader \<Rightarrow> string \<Rightarrow> string \<Rightarrow> 'v option \<Rightarrow> world \<Rightarrow> (error + 'v) \<times> world" where
  "load ld grp name dflt w =
     (let (all_eps, w1) = entry_points w;
          entrypoints = select_group all_eps grp
      in if name \<notin> names entrypoints \<and> dflt \<noteq> None then (Inr (the dflt), w1)
         else (case getitem entrypoints name of
                 Inl e \<Rightarrow> (Inl e, w1)
               | Inr ep \<Rightarrow> ep_load ld ep w1))"

subsection \<open>\<^verbatim>\<open>_defer_load_ep\<close>\<close>

text \<open>The body of the closure \<^verbatim>\<open>run\<close>, for the captured entry point.\<close>

definition run ::
  "'v loader \<Rightarrow> 'v caller \<Rightarrow> EntryPoint \<Rightarrow> 'v list \<Rightarrow> (string \<times> 'v) list \<Rightarrow> world
     \<Rightarrow> (error + 'v) \<times> world" where
  "run ld call ep args kwargs w =
     (if ep_attr ep = None then ep_load ld ep w
      else (case ep_load ld ep w of
              (Inl e, w1) \<Rightarrow> (Inl e, w1)
            | (Inr f, w1) \<Rightarrow> (call f args kwargs, w1)))"

definition defer_load_ep :: "EntryPoint \<Rightarrow> 'v object" where
  "defer_load_ep ep = Run ep"

text \<open>Calling an object: a closure runs its body, any other object goes to the caller.\<close>

fun invoke ::
  "'v loader \<Rightarrow> 'v caller \<Rightarrow> 'v object \<Rightarrow> 'v list \<Rightarrow> (string \<times> 'v) list \<Rightarrow> world
     \<Rightarrow> (error + 'v) \<times> world" where
  "invoke ld call (Run ep) args kwargs w = run ld call ep args kwargs w"
| "invoke ld call (Obj f) args kwargs w = (call f args kwargs, w)"

subsection \<open>\<^verbatim>\<open>load_group\<close>\<close>

text \<open>The first loop: entries are sorted into the two lists in store order.\<close>

fun scan ::
  "string \<Rightarrow> EntryPoint list \<Rightarrow> EntryPoint list \<times> EntryPoint list
     \<Rightarrow> EntryPoint list \<times> EntryPoint list" where
  "scan grp [] (entrypoints_prefixed, entrypoints_override) =
     (entrypoints_prefixed, entrypoints_override)"
| "scan grp (ep # rest) (entrypoints_prefixed, entrypoints_override) =
     (if ep_group ep = grp
        then scan grp rest (entrypoints_prefixed, entrypoints_override @ [ep])
      else if endswith (ep_group ep) grp
        then scan grp rest (entrypoints_prefixed @ [ep], entrypoints_override)
      else scan grp rest (entrypoints_prefixed, entrypoints_override))"

text \<open>The second loop: each entry is stored under its prefixed name.\<close>

fun fill :: "string \<Rightarrow> EntryPoint list \<Rightarrow> 'v dict \<Rightarrow> 'v dict" where
  "fill grp [] eps = eps"
| "fill grp (ep # rest) eps =
     (let prefix = replace (ep_group ep) grp []
      in fill grp rest (setitem (prefix @ ep_name ep) (defer_load_ep ep) eps))"

definition load_group ::
  "string \<Rightarrow> 'v dict option \<Rightarrow> bool \<Rightarrow> world \<Rightarrow> 'v dict option \<times> world" where
  "load_group grp dflt skip_defaults w =
     (let (all_eps, w1) = entry_points w;
          (entrypoints_prefixed, entrypoints_override) = scan grp all_eps ([], []);
          entrypoints =
            (if entrypoints_override \<noteq> [] then entrypoints_override else entrypoints_prefixed)
      in if length entrypoints = 0 then
           (if skip_defaults then (None, w1) else (dflt, w1))
         else
           (let eps = (case dflt of
                         Some d \<Rightarrow> if \<not> skip_defaults \<and> d \<noteq> [] then dict_update [] d else []
                       | None \<Rightarrow> [])
            in (Some (fill grp entrypoints eps), w1)))"

text \<open>
  The value of the variable \<^verbatim>\<open>entrypoints\<close> after the first loop: the entries that
  \<^verbatim>\<open>load_group\<close> goes on to use.
\<close>

definition effective :: "string \<Rightarrow> EntryPoint list \<Rightarrow> EntryPoint list" where
  "effective grp all_eps =
     (let (entrypoints_prefixed, entrypoints_override) = scan grp all_eps ([], [])
      in if entrypoints_override \<noteq> [] then entrypoints_override else entrypoints_prefixed)"

subsection \<open>Notions used to state the properties\<close>

text \<open>
  An exception mentions a string when the string occurs in one of its arguments
  (for \<^verbatim>\<open>KeyError(name)\<close>: in the name).
\<close>

definition mentions :: "error \<Rightarrow> string \<Rightarrow> bool" where
  "mentions e s \<longleftrightarrow> (\<exists>a\<in>set (error_args e). sublist s a)"

text \<open>
  \<^verbatim>\<open>s.removesuffix(suf)\<close>, the stripping of a trailing segment that \<^verbatim>\<open>load_group\<close>
  does not use: it is here to be compared with \<open>replace\<close>.
\<close>

definition removesuffix :: "'a list \<Rightarrow> 'a list \<Rightarrow> 'a list" where
  "removesuffix s suf = (if endswith s suf then take (length s - length suf) s else s)"

subsection \<open>Example registries\<close>

text \<open>
  The entries of the scenarios: \<^verbatim>\<open>[foo] bar = pkg.mod:fn\<close>, \<^verbatim>\<open>[foo] baz = pkg.mod2\<close>,
  a namespaced \<^verbatim>\<open>[ns.foo] bar\<close>, a group in which \<^verbatim>\<open>foo\<close> occurs three times, an entry
  of the empty group and one of group \<^verbatim>\<open>g\<close>; a loader that returns the reference itself
  and a caller that returns the call written out.
\<close>

definition bar_fn :: EntryPoint where
  "bar_fn = \<lparr>ep_name = ''bar'', ep_group = ''foo'', ep_module = ''pkg.mod'', ep_attr = Some ''fn''\<rparr>"

definition baz_mod :: EntryPoint where
  "baz_mod = \<lparr>ep_name = ''baz'', ep_group = ''foo'', ep_module = ''pkg.mod2'', ep_attr = None\<rparr>"

definition ns_bar :: EntryPoint where
  "ns_bar = \<lparr>ep_name = ''bar'', ep_group = ''ns.foo'', ep_module = ''ns.mod'', ep_attr = Some ''fn''\<rparr>"

definition foofoo_bar :: EntryPoint where
  "foofoo_bar = \<lparr>ep_name = ''bar'', ep_group = ''foofoo.foo'', ep_module = ''ns.mod'', ep_attr = None\<rparr>"

definition anon_a :: EntryPoint where
  "anon_a = \<lparr>ep_name = ''a'', ep_group = [], ep_module = ''pkg.a'', ep_attr = None\<rparr>"

definition g_b :: EntryPoint where
  "g_b = \<lparr>ep_name = ''b'', ep_group = ''g'', ep_module = ''pkg.b'', ep_attr = None\<rparr>"

definition ex_loader :: "string loader" where
  "ex_loader ep = Inr (ep_module ep @ (case ep_attr ep of None \<Rightarrow> [] | Some a \<Rightarrow> '':'' @ a))"

definition ex_call :: "string caller" where
  "ex_call f args kwargs =
     Inr (f @ ''('' @ concat args @ concat (map (\<lambda>(k, v). '','' @ k @ ''='' @ v) kwargs) @ '')'')"

section \<open>Properties\<close>

subsection \<open>Strings and dictionaries\<close>

lemma endswith_suffix: "endswith s suf \<longleftrightarrow> suffix suf s"
  unfolding endswith_def
  by (metis append_eq_conv_conj append_take_drop_id diff_add_inverse2 length_append
        suffix_def suffix_length_le)

lemma endswith_Nil: "endswith s []"
  by (simp add: endswith_def)

lemma endswith_refl: "endswith s s"
  by (simp add: endswith_def)

lemma replace_Nil_old: "replace s [] new = new @ concat (map (\<lambda>c. c # new) s)"
  by (simp add: replace.simps)

lemma replace_Nil_s: "old \<noteq> [] \<Longrightarrow> replace [] old new = []"
  by (simp add: replace.simps)

lemma replace_Cons:
  "old \<noteq> [] \<Longrightarrow> replace (c # cs) old new =
     (if startswith (c # cs) old then new @ replace (drop (length old) (c # cs)) old new
      else c # replace cs old new)"
  by (subst replace.simps) simp

lemma replace_empty_empty: "replace s [] [] = s"
  by (induction s) (simp_all add: replace_Nil_old)

lemma replace_self: "replace g g [] = []"
proof (cases g)
  case Nil
  then show ?thesis by (simp add: replace_Nil_old)
next
  case (Cons c cs)
  then show ?thesis by (simp add: replace_Cons startswith_def replace_Nil_s)
qed


lemma scan_filter:
  "scan g es (p, ov) =
     (p @ filter (\<lambda>ep. ep_group ep \<noteq> g \<and> endswith (ep_group ep) g) es,
      ov @ filter (\<lambda>ep. ep_group ep = g) es)"
  by (induction es arbitrary: p ov) auto

lemma map_of_setitem: "map_of (setitem k v d) = (map_of d)(k \<mapsto> v)"
  by (induction d) auto

lemma set_setitem: "set (setitem k v d) \<subseteq> insert (k, v) (set d)"
  by (induction d) auto

lemma set_dict_update: "set (dict_update a d) \<subseteq> set a \<union> set d"
proof (induction d arbitrary: a)
  case Nil
  then show ?case by simp
next
  case (Cons p ps)
  have "set (dict_update (setitem (fst p) (snd p) a) ps) \<subseteq> set (setitem (fst p) (snd p) a) \<union> set ps"
    by (rule Cons.IH)
  also have "\<dots> \<subseteq> insert p (set a) \<union> set ps"
    using set_setitem [of "fst p" "snd p" a] by auto
  finally show ?case by auto
qed

lemma setitem_fresh: "k \<notin> fst ` set d \<Longrightarrow> setitem k v d = d @ [(k, v)]"
  by (induction d) auto

lemma dict_update_distinct:
  "distinct (map fst (a @ d)) \<Longrightarrow> dict_update a d = a @ d"
proof (induction d arbitrary: a)
  case Nil
  then show ?case by simp
next
  case (Cons p ps)
  from Cons.prems have fresh: "fst p \<notin> fst ` set a" by auto
  from Cons.prems have "distinct (map fst ((a @ [p]) @ ps))" by auto
  then have "dict_update (a @ [p]) ps = (a @ [p]) @ ps" by (rule Cons.IH)
  with fresh show ?case by (simp add: setitem_fresh)
qed

subsection \<open>The two loops of \<^verbatim>\<open>load_group\<close>\<close>

lemma effective_exact:
  "\<exists>ep\<in>set es. ep_group ep = g \<Longrightarrow> effective g es = filter (\<lambda>ep. ep_group ep = g) es"
  by (auto simp: effective_def scan_filter filter_empty_conv)

lemma effective_suffixed:
  "\<forall>ep\<in>set es. ep_group ep \<noteq> g \<Longrightarrow>
     effective g es = filter (\<lambda>ep. endswith (ep_group ep) g) es"
proof -
  assume a: "\<forall>ep\<in>set es. ep_group ep \<noteq> g"
  then have "filter (\<lambda>ep. ep_group ep = g) es = []"
    by (simp add: filter_empty_conv)
  moreover from a have "filter (\<lambda>ep. ep_group ep \<noteq> g \<and> endswith (ep_group ep) g) es
       = filter (\<lambda>ep. endswith (ep_group ep) g) es"
    by (intro filter_cong) auto
  ultimately show ?thesis by (simp add: effective_def scan_filter)
qed

lemma effective_empty: "effective g es = [] \<longleftrightarrow> (\<forall>ep\<in>set es. \<not> endswith (ep_group ep) g)"
  by (auto simp: effective_def scan_filter filter_empty_conv endswith_refl)

lemma load_group_effective:
  "load_group g dflt skip w =
     (if effective g (store w) = [] then (if skip then None else dflt, w)
      else (Some (fill g (effective g (store w))
                   (case dflt of Some d \<Rightarrow> if \<not> skip \<and> d \<noteq> [] then dict_update [] d else []
                               | None \<Rightarrow> [])), w))"
  by (simp add: load_group_def entry_points_def effective_def Let_def split: prod.splits)

lemma map_of_fill:
  "map_of (fill g es d) =
     map_of d ++ map_of (rev (map (\<lambda>ep. (replace (ep_group ep) g [] @ ep_name ep, defer_load_ep ep)) es))"
proof (induction es arbitrary: d)
  case Nil
  then show ?case by simp
next
  case (Cons ep es)
  let ?f = "\<lambda>ep. (replace (ep_group ep) g [] @ ep_name ep, defer_load_ep ep :: 'a object)"
  have "map_of (fill g (ep # es) d) = map_of (fill g es (setitem (fst (?f ep)) (snd (?f ep)) d))"
    by (simp add: Let_def)
  also have "\<dots> = map_of (setitem (fst (?f ep)) (snd (?f ep)) d) ++ map_of (rev (map ?f es))"
    by (rule Cons.IH)
  also have "\<dots> = (map_of d ++ map_of [?f ep]) ++ map_of (rev (map ?f es))"
    by (simp only: map_of_setitem map_of.simps map_add_upd map_add_empty)
  also have "\<dots> = map_of d ++ map_of (rev (map ?f (ep # es)))"
    by (simp only: map_add_assoc map_of_append rev.simps list.map)
  finally show ?case .
qed

lemma set_fill:
  "(k, h) \<in> set (fill g es d) \<Longrightarrow>
     (\<exists>ep\<in>set es. k = replace (ep_group ep) g [] @ ep_name ep \<and> h = Run ep) \<or> (k, h) \<in> set d"
proof (induction es arbitrary: d)
  case Nil
  then show ?case by simp
next
  case (Cons ep es)
  from Cons.prems have
    "(k, h) \<in> set (fill g es (setitem (replace (ep_group ep) g [] @ ep_name ep) (defer_load_ep ep) d))"
    by (simp add: Let_def)
  from Cons.IH [OF this] show ?case
    using set_setitem [of "replace (ep_group ep) g [] @ ep_name ep" "defer_load_ep ep" d]
    by (auto simp: defer_load_ep_def)
qed

lemma fill_lookup:
  assumes "ep \<in> set es"
  shows "\<exists>ep'\<in>set es. replace (ep_group ep') g [] @ ep_name ep' = replace (ep_group ep) g [] @ ep_name ep
           \<and> map_of (fill g es d) (replace (ep_group ep) g [] @ ep_name ep) = Some (Run ep')"
proof -
  define f :: "EntryPoint \<Rightarrow> string \<times> 'a object"
    where "f = (\<lambda>ep. (replace (ep_group ep) g [] @ ep_name ep, defer_load_ep ep))"
  define k where "k = replace (ep_group ep) g [] @ ep_name ep"
  have fill: "map_of (fill g es d) = map_of d ++ map_of (rev (map f es))"
    unfolding f_def by (rule map_of_fill)
  from assms have "f ep \<in> set (rev (map f es))" by simp
  moreover have "fst (f ep) = k" by (simp add: f_def k_def)
  ultimately have "k \<in> fst ` set (rev (map f es))" by (metis image_eqI)
  then obtain h where h: "map_of (rev (map f es)) k = Some h"
    by (cases "map_of (rev (map f es)) k") (simp_all add: map_of_eq_None_iff)
  then have "(k, h) \<in> set (rev (map f es))" by (rule map_of_SomeD)
  then have "(k, h) \<in> f ` set es" by simp
  then obtain ep' where ep': "ep' \<in> set es" "(k, h) = f ep'" by (rule imageE)
  from ep'(2) have "replace (ep_group ep') g [] @ ep_name ep' = k" "h = Run ep'"
    by (simp_all add: f_def defer_load_ep_def)
  moreover have "map_of (fill g es d) k = Some h"
    using h by (simp add: fill map_add_def)
  ultimately show ?thesis using ep'(1) unfolding k_def by blast
qed

lemma fill_keeps:
  assumes "k \<notin> (\<lambda>ep. replace (ep_group ep) g [] @ ep_name ep) ` set es"
  shows "map_of (fill g es d) k = map_of d k"
proof -
  define f :: "EntryPoint \<Rightarrow> string \<times> 'a object"
    where "f = (\<lambda>ep. (replace (ep_group ep) g [] @ ep_name ep, defer_load_ep ep))"
  have fill: "map_of (fill g es d) = map_of d ++ map_of (rev (map f es))"
    unfolding f_def by (rule map_of_fill)
  have "fst ` set (rev (map f es)) = (\<lambda>ep. replace (ep_group ep) g [] @ ep_name ep) ` set es"
    by (simp add: f_def image_image)
  with assms have "map_of (rev (map f es)) k = None"
    by (simp only: map_of_eq_None_iff not_False_eq_True)
  then show ?thesis by (simp add: fill map_add_def)
qed

lemma seed_from_default:
  assumes "(k, h) \<in> set (case dflt of
                           Some d \<Rightarrow> if \<not> skip \<and> d \<noteq> [] then dict_update [] d else []
                         | None \<Rightarrow> [])"
  shows "\<not> skip \<and> (\<exists>d. dflt = Some d \<and> (k, h) \<in> set d)"
proof (cases dflt)
  case None
  with assms show ?thesis by simp
next
  case (Some d)
  with assms have ns: "\<not> skip" and "(k, h) \<in> set (dict_update [] d)"
    by (simp_all split: if_splits)
  then have "(k, h) \<in> set d" using set_dict_update [of "[]" d] by auto
  with ns Some show ?thesis by simp
qed

lemma replace_is_not_removesuffix:
  "replace ''foofoo.foo'' ''foo'' [] = ''.'' \<and> removesuffix ''foofoo.foo'' ''foo'' = ''foofoo.''"
  by code_simp

section \<open>The claims\<close>

text \<open>
  Claim C1. When some entry of the store has exactly the requested group,
  \<^verbatim>\<open>load_group\<close> returns a dictionary, and it is the one it returns for the store with
  every other entry taken out: entries whose group only ends with the requested group
  contribute nothing. Every item of the result is an exact-group entry under its bare
  name or an item of the default, and every exact-group entry's name is a key bound to
  the closure of an exact-group entry of that name.
\<close>

theorem exact_group_shadows_suffix:
  assumes "\<exists>ep\<in>set (store w). ep_group ep = g"
  shows "\<exists>m. fst (load_group g dflt skip w) = Some m
           \<and> fst (load_group g dflt skip
                    (w\<lparr>store := filter (\<lambda>ep. ep_group ep = g) (store w)\<rparr>)) = Some m
           \<and> (\<forall>k h. (k, h) \<in> set m \<longrightarrow>
                 (\<exists>ep\<in>set (store w). ep_group ep = g \<and> k = ep_name ep \<and> h = Run ep)
                 \<or> (\<not> skip \<and> (\<exists>d. dflt = Some d \<and> (k, h) \<in> set d)))
           \<and> (\<forall>ep\<in>set (store w). ep_group ep = g \<longrightarrow>
                 (\<exists>ep'\<in>set (store w). ep_group ep' = g \<and> ep_name ep' = ep_name ep
                     \<and> map_of m (ep_name ep) = Some (Run ep')))"
proof -
  define E where "E = filter (\<lambda>ep. ep_group ep = g) (store w)"
  define S :: "'a dict" where
    "S = (case dflt of Some d \<Rightarrow> if \<not> skip \<and> d \<noteq> [] then dict_update [] d else []
                     | None \<Rightarrow> [])"
  from assms have eff: "effective g (store w) = E"
    unfolding E_def by (rule effective_exact)
  from assms have ne: "E \<noteq> []"
    by (auto simp: E_def filter_empty_conv)
  then have "\<exists>ep\<in>set E. ep_group ep = g"
    by (cases E) (auto simp: E_def dest: filter_eq_ConsD)
  then have "effective g E = filter (\<lambda>ep. ep_group ep = g) E"
    by (rule effective_exact)
  then have eff': "effective g E = E" by (simp add: E_def)
  have r1: "fst (load_group g dflt skip w) = Some (fill g E S)"
    using ne by (simp add: load_group_effective eff S_def)
  have r2: "fst (load_group g dflt skip (w\<lparr>store := E\<rparr>)) = Some (fill g E S)"
    using ne by (simp add: load_group_effective eff' S_def)
  have key: "replace (ep_group ep) g [] @ ep_name ep = ep_name ep" if "ep \<in> set E" for ep
    using that by (simp add: E_def replace_self)
  have r3: "(\<exists>ep\<in>set (store w). ep_group ep = g \<and> k = ep_name ep \<and> h = Run ep)
              \<or> (\<not> skip \<and> (\<exists>d. dflt = Some d \<and> (k, h) \<in> set d))"
    if "(k, h) \<in> set (fill g E S)" for k h
  proof -
    from set_fill [OF that] show ?thesis
    proof
      assume "\<exists>ep\<in>set E. k = replace (ep_group ep) g [] @ ep_name ep \<and> h = Run ep"
      then obtain ep where "ep \<in> set E" "k = replace (ep_group ep) g [] @ ep_name ep" "h = Run ep"
        by blast
      then have "ep \<in> set (store w)" "ep_group ep = g" "k = ep_name ep" "h = Run ep"
        using key [of ep] by (simp_all add: E_def)
      then show ?thesis by blast
    next
      assume "(k, h) \<in> set S"
      then show ?thesis unfolding S_def by (blast dest: seed_from_default)
    qed
  qed
  have r4: "\<exists>ep'\<in>set (store w). ep_group ep' = g \<and> ep_name ep' = ep_name ep
              \<and> map_of (fill g E S) (ep_name ep) = Some (Run ep')"
    if "ep \<in> set (store w)" "ep_group ep = g" for ep
  proof -
    from that have "ep \<in> set E" by (simp add: E_def)
    from fill_lookup [OF this, of g S] obtain ep' where
      "ep' \<in> set E"
      "replace (ep_group ep') g [] @ ep_name ep' = replace (ep_group ep) g [] @ ep_name ep"
      "map_of (fill g E S) (replace (ep_group ep) g [] @ ep_name ep) = Some (Run ep')"
      by blast
    with \<open>ep \<in> set E\<close> have "ep' \<in> set (store w)" "ep_group ep' = g" "ep_name ep' = ep_name ep"
      "map_of (fill g E S) (ep_name ep) = Some (Run ep')"
      using key [of ep] key [of ep'] by (simp_all add: E_def)
    then show ?thesis by blast
  qed
  show ?thesis
  proof (intro exI conjI allI impI ballI)
    show "fst (load_group g dflt skip w) = Some (fill g E S)" by (rule r1)
    show "fst (load_group g dflt skip (w\<lparr>store := filter (\<lambda>ep. ep_group ep = g) (store w)\<rparr>))
            = Some (fill g E S)"
      using r2 by (simp only: E_def)
  qed (erule r3, erule (1) r4)
qed

theorem exact_group_shadows_suffix_witness:
  "(\<exists>ep\<in>set (store \<lparr>store = [bar_fn, ns_bar, baz_mod], loads = []\<rparr>). ep_group ep = ''foo'')
   \<and> fst (load_group ''foo'' (None :: string dict option) False
           \<lparr>store = [bar_fn, ns_bar, baz_mod], loads = []\<rparr>)
       = Some [(''bar'', Run bar_fn), (''baz'', Run baz_mod)]
   \<and> fst (load_group ''foo'' (None :: string dict option) False
           \<lparr>store = [bar_fn, baz_mod], loads = []\<rparr>)
       = Some [(''bar'', Run bar_fn), (''baz'', Run baz_mod)]"
proof -
  let ?w = "\<lparr>store = [bar_fn, ns_bar, baz_mod], loads = []\<rparr>"
  have h: "\<exists>ep\<in>set (store ?w). ep_group ep = ''foo''"
    by (simp add: bar_fn_def)
  from exact_group_shadows_suffix [OF h, of "None :: string dict option" False]
  obtain m where m: "fst (load_group ''foo'' (None :: string dict option) False ?w) = Some m"
    "fst (load_group ''foo'' (None :: string dict option) False
       (?w\<lparr>store := filter (\<lambda>ep. ep_group ep = ''foo'') (store ?w)\<rparr>)) = Some m"
    by blast
  have ev: "fst (load_group ''foo'' (None :: string dict option) False ?w)
              = Some [(''bar'', Run bar_fn), (''baz'', Run baz_mod)]"
    by code_simp
  have st: "?w\<lparr>store := filter (\<lambda>ep. ep_group ep = ''foo'') (store ?w)\<rparr>
              = \<lparr>store = [bar_fn, baz_mod], loads = []\<rparr>"
    by (simp add: bar_fn_def ns_bar_def baz_mod_def)
  from m ev st h show ?thesis by simp
qed

text \<open>
  Claim C2. When no entry has exactly the requested group, every entry \<open>ep\<close> whose group
  ends with it is stored under the key \<^verbatim>\<open>ep.group.replace(group, "") + ep.name\<close>, bound
  to the closure of an entry with that key (the last one in store order), and every item
  of the result that is not an item of the default is such an entry under such a key.
  The prefix is the group with every occurrence of the requested group removed
  (\<open>replace\<close>), not the group without its trailing segment (\<open>removesuffix\<close>): for the
  group \<^verbatim>\<open>foofoo.foo\<close> and the request \<^verbatim>\<open>foo\<close> the key of \<^verbatim>\<open>bar\<close> is \<^verbatim>\<open>.bar\<close>, and
  for \<^verbatim>\<open>ns.foo\<close> it is \<^verbatim>\<open>ns.bar\<close>.
\<close>

theorem suffix_entry_key:
  assumes "\<forall>e\<in>set (store w). ep_group e \<noteq> g"
    and "ep \<in> set (store w)"
    and "endswith (ep_group ep) g"
  shows "\<exists>m. fst (load_group g dflt skip w) = Some m
           \<and> (\<exists>ep'\<in>set (store w). endswith (ep_group ep') g
                 \<and> replace (ep_group ep') g [] @ ep_name ep' = replace (ep_group ep) g [] @ ep_name ep
                 \<and> map_of m (replace (ep_group ep) g [] @ ep_name ep) = Some (Run ep'))
           \<and> (\<forall>k h. (k, h) \<in> set m \<longrightarrow>
                 (\<exists>e\<in>set (store w). endswith (ep_group e) g
                     \<and> k = replace (ep_group e) g [] @ ep_name e \<and> h = Run e)
                 \<or> (\<not> skip \<and> (\<exists>d. dflt = Some d \<and> (k, h) \<in> set d)))"
proof -
  define E where "E = filter (\<lambda>e. endswith (ep_group e) g) (store w)"
  define S :: "'a dict" where
    "S = (case dflt of Some d \<Rightarrow> if \<not> skip \<and> d \<noteq> [] then dict_update [] d else []
                     | None \<Rightarrow> [])"
  from assms(1) have eff: "effective g (store w) = E"
    unfolding E_def by (rule effective_suffixed)
  from assms(2,3) have mem: "ep \<in> set E" by (simp add: E_def)
  then have ne: "E \<noteq> []" by auto
  have r1: "fst (load_group g dflt skip w) = Some (fill g E S)"
    using ne by (simp add: load_group_effective eff S_def)
  from fill_lookup [OF mem, of g S] obtain ep' where ep':
    "ep' \<in> set E"
    "replace (ep_group ep') g [] @ ep_name ep' = replace (ep_group ep) g [] @ ep_name ep"
    "map_of (fill g E S) (replace (ep_group ep) g [] @ ep_name ep) = Some (Run ep')"
    by blast
  from ep'(1) have ep'_in: "ep' \<in> set (store w)" and ep'_suf: "endswith (ep_group ep') g"
    by (simp_all add: E_def)
  have r3: "(\<exists>e\<in>set (store w). endswith (ep_group e) g
                \<and> k = replace (ep_group e) g [] @ ep_name e \<and> h = Run e)
              \<or> (\<not> skip \<and> (\<exists>d. dflt = Some d \<and> (k, h) \<in> set d))"
    if "(k, h) \<in> set (fill g E S)" for k h
  proof -
    from set_fill [OF that] show ?thesis
    proof
      assume "\<exists>e\<in>set E. k = replace (ep_group e) g [] @ ep_name e \<and> h = Run e"
      then obtain e where "e \<in> set E" "k = replace (ep_group e) g [] @ ep_name e" "h = Run e"
        by blast
      then have "e \<in> set (store w)" "endswith (ep_group e) g"
        "k = replace (ep_group e) g [] @ ep_name e" "h = Run e"
        by (simp_all add: E_def)
      then show ?thesis by blast
    next
      assume "(k, h) \<in> set S"
      then show ?thesis unfolding S_def by (blast dest: seed_from_default)
    qed
  qed
  show ?thesis
  proof (intro exI conjI allI impI)
    show "fst (load_group g dflt skip w) = Some (fill g E S)" by (rule r1)
    show "\<exists>ep'\<in>set (store w). endswith (ep_group ep') g
            \<and> replace (ep_group ep') g [] @ ep_name ep' = replace (ep_group ep) g [] @ ep_name ep
            \<and> map_of (fill g E S) (replace (ep_group ep) g [] @ ep_name ep) = Some (Run ep')"
      using ep'_in ep'_suf ep'(2,3) by (intro bexI conjI)
  qed (erule r3)
qed

theorem suffix_entry_key_witness:
  "list_all (\<lambda>e. ep_group e \<noteq> ''foo'') (store \<lparr>store = [foofoo_bar, ns_bar], loads = []\<rparr>)
   \<and> foofoo_bar \<in> set (store \<lparr>store = [foofoo_bar, ns_bar], loads = []\<rparr>)
   \<and> endswith (ep_group foofoo_bar) ''foo''
   \<and> replace (ep_group foofoo_bar) ''foo'' [] @ ep_name foofoo_bar = ''.bar''
   \<and> replace (ep_group ns_bar) ''foo'' [] @ ep_name ns_bar = ''ns.bar''
   \<and> removesuffix (ep_group foofoo_bar) ''foo'' = ''foofoo.''
   \<and> (\<exists>m. fst (load_group ''foo'' (None :: string dict option) False
                 \<lparr>store = [foofoo_bar, ns_bar], loads = []\<rparr>) = Some m
          \<and> (\<exists>ep'\<in>set [foofoo_bar, ns_bar]. map_of m ''.bar'' = Some (Run ep')))
   \<and> fst (load_group ''foo'' (None :: string dict option) False
           \<lparr>store = [foofoo_bar, ns_bar], loads = []\<rparr>)
       = Some [(''.bar'', Run foofoo_bar), (''ns.bar'', Run ns_bar)]"
proof -
  let ?w = "\<lparr>store = [foofoo_bar, ns_bar], loads = []\<rparr>"
  have h1: "\<forall>e\<in>set (store ?w). ep_group e \<noteq> ''foo''"
    by (simp add: foofoo_bar_def ns_bar_def)
  have h2: "foofoo_bar \<in> set (store ?w)" by simp
  have h3: "endswith (ep_group foofoo_bar) ''foo''" by code_simp
  have k1: "replace (ep_group foofoo_bar) ''foo'' [] @ ep_name foofoo_bar = ''.bar''"
    by code_simp
  have k2: "replace (ep_group ns_bar) ''foo'' [] @ ep_name ns_bar = ''ns.bar''"
    by code_simp
  have k3: "removesuffix (ep_group foofoo_bar) ''foo'' = ''foofoo.''"
    by code_simp
  have ev: "fst (load_group ''foo'' (None :: string dict option) False ?w)
              = Some [(''.bar'', Run foofoo_bar), (''ns.bar'', Run ns_bar)]"
    by code_simp
  from suffix_entry_key [OF h1 h2 h3, of "None :: string dict option" False]
  obtain m ep' where "fst (load_group ''foo'' (None :: string dict option) False ?w) = Some m"
    "ep' \<in> set (store ?w)"
    "map_of m (replace (ep_group foofoo_bar) ''foo'' [] @ ep_name foofoo_bar) = Some (Run ep')"
    by blast
  then have ex: "\<exists>m. fst (load_group ''foo'' (None :: string dict option) False ?w) = Some m
          \<and> (\<exists>ep'\<in>set [foofoo_bar, ns_bar]. map_of m ''.bar'' = Some (Run ep'))"
    unfolding k1 by (intro exI conjI bexI) simp_all
  from h1 h2 h3 k1 k2 k3 ex ev show ?thesis
    by (simp only: list_all_iff simp_thms)
qed

text \<open>
  Claim C3. When no entry of the store has the requested group and none has a group that
  ends with it, so that the list \<^verbatim>\<open>entrypoints\<close> is empty, \<^verbatim>\<open>load_group\<close> returns
  \<^verbatim>\<open>None\<close> if \<^verbatim>\<open>skip_defaults\<close> is set, whatever the default is, and otherwise
  returns the default as it was given, which may be \<^verbatim>\<open>None\<close>.
\<close>

theorem load_group_no_match:
  assumes "\<forall>ep\<in>set (store w). ep_group ep \<noteq> g \<and> \<not> endswith (ep_group ep) g"
  shows "fst (load_group g dflt skip w) = (if skip then None else dflt)"
proof -
  from assms have "effective g (store w) = []"
    by (simp add: effective_empty)
  then show ?thesis by (simp add: load_group_effective)
qed

theorem load_group_no_match_witness:
  "list_all (\<lambda>ep. ep_group ep \<noteq> ''missing_group'' \<and> \<not> endswith (ep_group ep) ''missing_group'')
      (store \<lparr>store = [bar_fn, baz_mod], loads = []\<rparr>)
   \<and> fst (load_group ''missing_group'' (Some [(''x'', Obj ''f'')]) True
           \<lparr>store = [bar_fn, baz_mod], loads = []\<rparr>) = None
   \<and> fst (load_group ''missing_group'' (Some [(''x'', Obj ''f'')]) False
           \<lparr>store = [bar_fn, baz_mod], loads = []\<rparr>) = Some [(''x'', Obj ''f'')]
   \<and> fst (load_group ''missing_group'' (None :: string dict option) False
           \<lparr>store = [bar_fn, baz_mod], loads = []\<rparr>) = None"
proof -
  let ?w = "\<lparr>store = [bar_fn, baz_mod], loads = []\<rparr>"
  have h: "\<forall>ep\<in>set (store ?w).
       ep_group ep \<noteq> ''missing_group'' \<and> \<not> endswith (ep_group ep) ''missing_group''"
    by (simp add: endswith_def bar_fn_def baz_mod_def)
  from h load_group_no_match [OF h, of "Some [(''x'', Obj ''f'')]" True]
    load_group_no_match [OF h, of "Some [(''x'', Obj ''f'')]" False]
    load_group_no_match [OF h, of "None :: string dict option" False]
  show ?thesis
    by (simp only: list_all_iff if_True if_False simp_thms)
qed

text \<open>
  Claim C4. When the list \<^verbatim>\<open>entrypoints\<close> is not empty, \<^verbatim>\<open>skip_defaults\<close> is false and
  a default dictionary \<open>d\<close> is given (a dictionary: its keys are distinct), the result is
  \<open>d\<close> with every entry of \<^verbatim>\<open>entrypoints\<close> stored into it by the second loop. So the
  name of every such entry, in \<open>d\<close> or not, is bound to the closure of a registry entry, never
  to what \<open>d\<close> had there, and the names of no entry keep the value \<open>d\<close> gives them.
\<close>

theorem registry_overrides_defaults:
  assumes "\<exists>ep\<in>set (store w). endswith (ep_group ep) g"
    and "distinct (map fst d)"
  shows "fst (load_group g (Some d) False w) = Some (fill g (effective g (store w)) d)
       \<and> (\<forall>ep\<in>set (effective g (store w)).
            \<exists>ep'\<in>set (effective g (store w)).
              replace (ep_group ep') g [] @ ep_name ep' = replace (ep_group ep) g [] @ ep_name ep
              \<and> map_of (fill g (effective g (store w)) d) (replace (ep_group ep) g [] @ ep_name ep)
                  = Some (Run ep'))
       \<and> (\<forall>k. k \<notin> (\<lambda>ep. replace (ep_group ep) g [] @ ep_name ep) ` set (effective g (store w))
              \<longrightarrow> map_of (fill g (effective g (store w)) d) k = map_of d k)"
proof (intro conjI ballI allI impI)
  from assms(1) have ne: "effective g (store w) \<noteq> []"
    by (simp add: effective_empty)
  from assms(2) have "dict_update [] d = d"
    using dict_update_distinct [of "[]" d] by simp
  then have "(if d \<noteq> [] then dict_update [] d else []) = d" by simp
  with ne show "fst (load_group g (Some d) False w) = Some (fill g (effective g (store w)) d)"
    by (simp add: load_group_effective)
next
  fix ep assume "ep \<in> set (effective g (store w))"
  then show "\<exists>ep'\<in>set (effective g (store w)).
      replace (ep_group ep') g [] @ ep_name ep' = replace (ep_group ep) g [] @ ep_name ep
      \<and> map_of (fill g (effective g (store w)) d) (replace (ep_group ep) g [] @ ep_name ep)
          = Some (Run ep')"
    by (rule fill_lookup)
next
  fix k assume "k \<notin> (\<lambda>ep. replace (ep_group ep) g [] @ ep_name ep) ` set (effective g (store w))"
  then show "map_of (fill g (effective g (store w)) d) k = map_of d k"
    by (rule fill_keeps)
qed

theorem registry_overrides_defaults_witness:
  "(\<exists>ep\<in>set (store \<lparr>store = [bar_fn, baz_mod], loads = []\<rparr>). endswith (ep_group ep) ''foo'')
   \<and> distinct (map fst [(''bar'', Obj ''other''), (''x'', Obj ''f'')])
   \<and> fst (load_group ''foo'' (Some [(''bar'', Obj ''other''), (''x'', Obj ''f'')]) False
           \<lparr>store = [bar_fn, baz_mod], loads = []\<rparr>)
       = Some [(''bar'', Run bar_fn), (''x'', Obj ''f''), (''baz'', Run baz_mod)]
   \<and> fill ''foo'' (effective ''foo'' [bar_fn, baz_mod]) [(''bar'', Obj ''other''), (''x'', Obj ''f'')]
       = [(''bar'', Run bar_fn), (''x'', Obj ''f''), (''baz'', Run baz_mod)]"
proof -
  let ?w = "\<lparr>store = [bar_fn, baz_mod], loads = []\<rparr>"
  let ?d = "[(''bar'', Obj ''other''), (''x'', Obj ''f'')]"
  have h1: "\<exists>ep\<in>set (store ?w). endswith (ep_group ep) ''foo''"
    by (simp add: bar_fn_def endswith_def)
  have h2: "distinct (map fst ?d)" by simp
  have ev: "fill ''foo'' (effective ''foo'' [bar_fn, baz_mod]) ?d
              = [(''bar'', Run bar_fn), (''x'', Obj ''f''), (''baz'', Run baz_mod)]"
    by code_simp
  from registry_overrides_defaults [OF h1 h2]
  have "fst (load_group ''foo'' (Some ?d) False ?w)
          = Some (fill ''foo'' (effective ''foo'' (store ?w)) ?d)"
    by (rule conjunct1)
  with ev have "fst (load_group ''foo'' (Some ?d) False ?w)
          = Some [(''bar'', Run bar_fn), (''x'', Obj ''f''), (''baz'', Run baz_mod)]"
    by simp
  with h1 h2 ev show ?thesis by (intro conjI)
qed

text \<open>
  Claim C5. Calling the closure made for an entry point whose reference is a module
  (\<^verbatim>\<open>ep.attr is None\<close>) gives what the loader gives for that entry point, whatever
  the positional and keyword arguments are and whatever calling the loaded object
  would do: the arguments are ignored and nothing is raised on their account.
\<close>

theorem module_handle_ignores_arguments:
  assumes "ep_attr ep = None"
  shows "invoke ld call (defer_load_ep ep) args kwargs w = (ld ep, w\<lparr>loads := loads w @ [ep]\<rparr>)"
  using assms by (simp add: defer_load_ep_def run_def ep_load_def)

theorem module_handle_ignores_arguments_witness:
  "ep_attr baz_mod = None
   \<and> invoke ex_loader (\<lambda>f args kwargs. Inl (Raised ''not callable'')) (defer_load_ep baz_mod)
         [''baz''] [(''hello'', ''world'')] \<lparr>store = [bar_fn, baz_mod], loads = []\<rparr>
       = (Inr ''pkg.mod2'', \<lparr>store = [bar_fn, baz_mod], loads = [baz_mod]\<rparr>)"
proof -
  have h: "ep_attr baz_mod = None" by (simp add: baz_mod_def)
  have "ex_loader baz_mod = Inr ''pkg.mod2''" by (simp add: ex_loader_def baz_mod_def)
  with h module_handle_ignores_arguments [OF h, of ex_loader
      "\<lambda>f args kwargs. Inl (Raised ''not callable'')" "[''baz'']" "[(''hello'', ''world'')]"
      "\<lparr>store = [bar_fn, baz_mod], loads = []\<rparr>"]
  show ?thesis by simp
qed

text \<open>
  Claim C6. Calling the closure made for an entry point whose reference has an attribute
  loads the target and calls it with the very arguments the closure was called with,
  returning what the target returns; a failure of the loader is passed on.
\<close>

theorem function_handle_forwards_arguments:
  assumes "ep_attr ep = Some a"
  shows "fst (invoke ld call (defer_load_ep ep) args kwargs w) =
           (case ld ep of Inl e \<Rightarrow> Inl e | Inr f \<Rightarrow> call f args kwargs)"
  using assms by (simp add: defer_load_ep_def run_def ep_load_def split: sum.splits)

theorem function_handle_forwards_arguments_witness:
  "ep_attr bar_fn = Some ''fn''
   \<and> map_of (the (fst (load_group ''foo'' (None :: string dict option) False
                        \<lparr>store = [bar_fn, baz_mod], loads = []\<rparr>))) ''bar''
       = Some (defer_load_ep bar_fn)
   \<and> ex_loader bar_fn = Inr ''pkg.mod:fn''
   \<and> fst (invoke ex_loader ex_call (defer_load_ep bar_fn) [''1''] [(''k'', ''2'')]
           \<lparr>store = [bar_fn, baz_mod], loads = []\<rparr>)
       = ex_call ''pkg.mod:fn'' [''1''] [(''k'', ''2'')]"
proof -
  have h: "ep_attr bar_fn = Some ''fn''" by (simp add: bar_fn_def)
  have l: "ex_loader bar_fn = Inr ''pkg.mod:fn''" by (simp add: ex_loader_def bar_fn_def)
  have g: "map_of (the (fst (load_group ''foo'' (None :: string dict option) False
                        \<lparr>store = [bar_fn, baz_mod], loads = []\<rparr>))) ''bar''
       = Some (defer_load_ep bar_fn)"
    by code_simp
  from function_handle_forwards_arguments [OF h, of ex_loader ex_call "[''1'']" "[(''k'', ''2'')]"
      "\<lparr>store = [bar_fn, baz_mod], loads = []\<rparr>"] l
  have "fst (invoke ex_loader ex_call (defer_load_ep bar_fn) [''1''] [(''k'', ''2'')]
           \<lparr>store = [bar_fn, baz_mod], loads = []\<rparr>)
       = ex_call ''pkg.mod:fn'' [''1''] [(''k'', ''2'')]"
    by simp
  with h l g show ?thesis by (intro conjI)
qed

text \<open>
  Claim C7. When no entry of the requested group has the requested name, \<^verbatim>\<open>load\<close>
  with a default \<open>D\<close> returns \<open>D\<close> itself, for every \<open>D\<close>; the loader is not called.
  (A default that is Python's \<^verbatim>\<open>None\<close> is the absent default, \<open>None\<close> here.)
\<close>

theorem load_default:
  assumes "name \<notin> names (select_group (store w) g)"
  shows "load ld g name (Some D) w = (Inr D, w)"
  using assms by (simp add: load_def entry_points_def)

theorem load_default_witness:
  "''qux'' \<notin> names (select_group (store \<lparr>store = [bar_fn, baz_mod], loads = []\<rparr>) ''foo'')
   \<and> load ex_loader ''foo'' ''qux'' (Some ''D'') \<lparr>store = [bar_fn, baz_mod], loads = []\<rparr>
       = (Inr ''D'', \<lparr>store = [bar_fn, baz_mod], loads = []\<rparr>)"
proof -
  have h: "''qux'' \<notin> names (select_group (store \<lparr>store = [bar_fn, baz_mod], loads = []\<rparr>) ''foo'')"
    by (simp add: names_def select_group_def bar_fn_def baz_mod_def)
  from h load_default [OF h, of ex_loader "''D''"] show ?thesis
    by (intro conjI)
qed

text \<open>
  Claim C8 as stated asks for an error that names the group and the name. With only
  \<^verbatim>\<open>[ns.foo] bar\<close> in the store, \<^verbatim>\<open>load("foo", "bar")\<close> raises \<^verbatim>\<open>KeyError("bar")\<close>, in
  which the group \<^verbatim>\<open>foo\<close> does not occur.
\<close>

theorem load_missing_counterexample:
  "fst (load ex_loader ''foo'' ''bar'' None \<lparr>store = [ns_bar], loads = []\<rparr>)
     = Inl (KeyError ''bar'')
   \<and> \<not> mentions (KeyError ''bar'') ''foo''"
  by code_simp

text \<open>
  Claim C8, amended. When no entry of the requested group has the requested name and no
  default is given, \<^verbatim>\<open>load\<close> fails with the \<^verbatim>\<open>KeyError\<close> of the lookup, which carries
  the name; the loader is not called.
\<close>

theorem load_missing:
  assumes "name \<notin> names (select_group (store w) g)"
  shows "load ld g name None w = (Inl (KeyError name), w) \<and> mentions (KeyError name) name"
proof -
  from assms have "filter (\<lambda>ep. ep_name ep = name) (select_group (store w) g) = []"
    by (auto simp: names_def filter_empty_conv)
  then show ?thesis
    by (simp add: load_def entry_points_def getitem_def mentions_def)
qed

theorem load_missing_witness:
  "''bar'' \<notin> names (select_group (store \<lparr>store = [ns_bar], loads = []\<rparr>) ''foo'')
   \<and> load ex_loader ''foo'' ''bar'' None \<lparr>store = [ns_bar], loads = []\<rparr>
       = (Inl (KeyError ''bar''), \<lparr>store = [ns_bar], loads = []\<rparr>)"
proof -
  have h: "''bar'' \<notin> names (select_group (store \<lparr>store = [ns_bar], loads = []\<rparr>) ''foo'')"
    by (simp add: names_def select_group_def ns_bar_def)
  from load_missing [OF h, of ex_loader] h show ?thesis by simp
qed


text \<open>
  Claim C10 as stated gives every entry with a non-empty group a key in the result of
  \<^verbatim>\<open>load_group("")\<close>. With an entry of the empty group in the store, the entry of group
  \<^verbatim>\<open>g\<close> is put on the prefixed list, but the exact matches are used and the result has no
  key \<^verbatim>\<open>gb\<close>.
\<close>

theorem empty_group_counterexample:
  "ep_group g_b \<noteq> []
   \<and> g_b \<in> set (fst (scan [] (store \<lparr>store = [anon_a, g_b], loads = []\<rparr>) ([], [])))
   \<and> fst (load_group [] (None :: string dict option) False \<lparr>store = [anon_a, g_b], loads = []\<rparr>)
       = Some [(''a'', Run anon_a)]
   \<and> map_of [(''a'', Run anon_a :: string object)] (ep_group g_b @ ep_name g_b) = None"
  by code_simp

text \<open>
  Claim C10, amended. For the empty requested group, every entry with a non-empty group
  is put on the prefixed list; and when no entry of the store has the empty group, the
  result of \<^verbatim>\<open>load_group("")\<close> binds the entry's group followed directly by its name
  to the closure of an entry with that key.
\<close>

theorem empty_group_matches_every_entry:
  assumes "ep \<in> set (store w)" and "ep_group ep \<noteq> []"
  shows "ep \<in> set (fst (scan [] (store w) ([], [])))
       \<and> ((\<forall>e\<in>set (store w). ep_group e \<noteq> []) \<longrightarrow>
            (\<exists>m. fst (load_group [] dflt skip w) = Some m
               \<and> (\<exists>ep'\<in>set (store w). ep_group ep' @ ep_name ep' = ep_group ep @ ep_name ep
                     \<and> map_of m (ep_group ep @ ep_name ep) = Some (Run ep'))))"
proof (intro conjI impI)
  from assms show "ep \<in> set (fst (scan [] (store w) ([], [])))"
    by (simp add: scan_filter endswith_Nil)
next
  assume none: "\<forall>e\<in>set (store w). ep_group e \<noteq> []"
  define S :: "'a dict" where
    "S = (case dflt of Some d \<Rightarrow> if \<not> skip \<and> d \<noteq> [] then dict_update [] d else []
                     | None \<Rightarrow> [])"
  from none have "effective [] (store w) = filter (\<lambda>e. endswith (ep_group e) []) (store w)"
    by (rule effective_suffixed)
  then have eff: "effective [] (store w) = store w"
    by (simp add: endswith_Nil)
  from assms(1) have ne: "store w \<noteq> []" by auto
  have r1: "fst (load_group [] dflt skip w) = Some (fill [] (store w) S)"
    using ne by (simp add: load_group_effective eff S_def)
  from fill_lookup [OF assms(1), of "[]" S] obtain ep' where
    "ep' \<in> set (store w)"
    "replace (ep_group ep') [] [] @ ep_name ep' = replace (ep_group ep) [] [] @ ep_name ep"
    "map_of (fill [] (store w) S) (replace (ep_group ep) [] [] @ ep_name ep) = Some (Run ep')"
    by blast
  then have "ep' \<in> set (store w)" "ep_group ep' @ ep_name ep' = ep_group ep @ ep_name ep"
    "map_of (fill [] (store w) S) (ep_group ep @ ep_name ep) = Some (Run ep')"
    by (simp_all add: replace_empty_empty)
  with r1 show "\<exists>m. fst (load_group [] dflt skip w) = Some m
               \<and> (\<exists>ep'\<in>set (store w). ep_group ep' @ ep_name ep' = ep_group ep @ ep_name ep
                     \<and> map_of m (ep_group ep @ ep_name ep) = Some (Run ep'))"
    by (intro exI conjI bexI)
qed

theorem empty_group_matches_every_entry_witness:
  "g_b \<in> set (store \<lparr>store = [bar_fn, g_b], loads = []\<rparr>)
   \<and> ep_group g_b \<noteq> []
   \<and> list_all (\<lambda>e. ep_group e \<noteq> []) (store \<lparr>store = [bar_fn, g_b], loads = []\<rparr>)
   \<and> g_b \<in> set (fst (scan [] (store \<lparr>store = [bar_fn, g_b], loads = []\<rparr>) ([], [])))
   \<and> fst (load_group [] (None :: string dict option) False \<lparr>store = [bar_fn, g_b], loads = []\<rparr>)
       = Some [(''foobar'', Run bar_fn), (''gb'', Run g_b)]
   \<and> (\<exists>m. fst (load_group [] (None :: string dict option) False
                 \<lparr>store = [bar_fn, g_b], loads = []\<rparr>) = Some m
          \<and> (\<exists>ep'\<in>set [bar_fn, g_b]. map_of m ''gb'' = Some (Run ep')))"
proof -
  let ?w = "\<lparr>store = [bar_fn, g_b], loads = []\<rparr>"
  have h1: "g_b \<in> set (store ?w)" by simp
  have h2: "ep_group g_b \<noteq> []" by (simp add: g_b_def)
  have h3: "\<forall>e\<in>set (store ?w). ep_group e \<noteq> []" by (simp add: g_b_def bar_fn_def)
  have k: "ep_group g_b @ ep_name g_b = ''gb''" by (simp add: g_b_def)
  have ev: "fst (load_group [] (None :: string dict option) False ?w)
              = Some [(''foobar'', Run bar_fn), (''gb'', Run g_b)]"
    by code_simp
  note inst = empty_group_matches_every_entry [OF h1 h2, of "None :: string dict option" False]
  from inst have c1: "g_b \<in> set (fst (scan [] (store ?w) ([], [])))" by (rule conjunct1)
  from inst h3 obtain m ep' where
    "fst (load_group [] (None :: string dict option) False ?w) = Some m"
    "ep' \<in> set (store ?w)" "map_of m (ep_group g_b @ ep_name g_b) = Some (Run ep')"
    by blast
  then have ex: "\<exists>m. fst (load_group [] (None :: string dict option) False ?w) = Some m
          \<and> (\<exists>ep'\<in>set [bar_fn, g_b]. map_of m ''gb'' = Some (Run ep'))"
    unfolding k by (intro exI conjI bexI) simp_all
  from h1 h2 h3 c1 ev ex show ?thesis
    by (simp only: list_all_iff simp_thms)
qed

end
